theory Spec2Isabelle
  imports Main "HOL-Library.Sublist"
begin

section \<open>Python values, dictionaries and exceptions\<close>

text \<open>
  The command line interface of pywhispercpp (\<^verbatim>\<open>pywhispercpp/examples/main.py\<close>) is
  glue code around an external transcription engine.  Three functions carry its logic:
  \<^verbatim>\<open>_get_params\<close> turns the parsed command line into the keyword arguments of the engine,
  \<^verbatim>\<open>run\<close> transcribes the media files one after the other and emits the results, and
  \<^verbatim>\<open>main\<close> registers one command line flag per engine parameter.

  Exceptions are values.  The handlers of \<^verbatim>\<open>run\<close> tell three classes apart:
  \<^verbatim>\<open>KeyboardInterrupt\<close>, the instances of \<^verbatim>\<open>Exception\<close>, and the remaining
  system-exiting exceptions, for which \<open>SystemExit\<close> stands.
\<close>

datatype py_exception =
    KeyboardInterrupt
  | SystemExit
  | Exception string
  | UnboundLocalError
  | TypeError
  | ValueError
  | AttributeError
  | ArgumentError

text \<open>\<^verbatim>\<open>isinstance(e, Exception)\<close>: what the clause \<^verbatim>\<open>except Exception as e\<close> catches.\<close>

fun is_Exception :: "py_exception \<Rightarrow> bool" where
  "is_Exception KeyboardInterrupt = False"
| "is_Exception SystemExit = False"
| "is_Exception _ = True"

text \<open>
  A value of an argument or of a parameter.  The code only tells \<^verbatim>\<open>None\<close> and dictionaries
  from everything else; \<open>PAtom\<close> holds any other value (numbers, strings, booleans, lists).
  Values are immutable here: two arguments never share one dictionary object.
\<close>

datatype 'a pyval =
    PNone
  | PAtom 'a
  | PDict "(string \<times> 'a pyval) list"

text \<open>
  A Python \<^verbatim>\<open>dict\<close> keeps its keys in insertion order: an association list in which a
  store to a present key replaces the value in place and a store to a new key appends.
\<close>

type_synonym ('k, 'v) dict = "('k \<times> 'v) list"

definition dict_get :: "('k, 'v) dict \<Rightarrow> 'k \<Rightarrow> 'v option" where
  "dict_get d k = map_of d k"

fun dict_set :: "('k, 'v) dict \<Rightarrow> 'k \<Rightarrow> 'v \<Rightarrow> ('k, 'v) dict" where
  "dict_set [] k v = [(k, v)]"
| "dict_set ((k', v') # d) k v =
     (if k' = k then (k', v) # d else (k', v') # dict_set d k v)"

definition dict_keys :: "('k, 'v) dict \<Rightarrow> 'k list" where
  "dict_keys d = map fst d"

text \<open>\<^verbatim>\<open>s.split(".")\<close>: the pieces of \<open>s\<close> between the dots, empty pieces included.\<close>

fun split_dot :: "string \<Rightarrow> string list" where
  "split_dot [] = [[]]"
| "split_dot (c # cs) =
     (if c = CHR ''.'' then [] # split_dot cs
      else (case split_dot cs of
              [] \<Rightarrow> [[c]]
            | w # ws \<Rightarrow> (c # w) # ws))"

text \<open>\<^verbatim>\<open>s.replace('_', '-')\<close>\<close>

definition replace_underscores :: "string \<Rightarrow> string" where
  "replace_underscores s = map (\<lambda>c. if c = CHR ''_'' then CHR ''-'' else c) s"

section \<open>The parameter tables\<close>

text \<open>
  \<^verbatim>\<open>constants.PARAMS_SCHEMA\<close> and \<^verbatim>\<open>constants.PARAMS_MAPPING\<close> are defined outside the
  two example files; every function below takes them as arguments.  The schema maps a
  canonical parameter name to its fields, the mapping maps a canonical path
  (\<^verbatim>\<open>name\<close> or \<^verbatim>\<open>group.field\<close>) to the name the command line shows.
  Of a type, \<^verbatim>\<open>main\<close> only asks whether it is \<^verbatim>\<open>dict\<close>.
\<close>

datatype pytype = Tdict | Tother string

record 'a param_fields =
  ptype :: pytype
  description :: string
  pdefault :: "'a pyval"

type_synonym 'a params_schema = "(string, 'a param_fields) dict"
type_synonym params_mapping = "(string, string) dict"

section \<open>ParameterResolver: \<^verbatim>\<open>_get_params\<close>\<close>

text \<open>
  \<^verbatim>\<open>inv_params_mapping = {v: k for k, v in constants.PARAMS_MAPPING.items()}\<close>:
  when two paths share a shown name, the later path wins.
\<close>

definition inv_params_mapping :: "params_mapping \<Rightarrow> (string, string) dict" where
  "inv_params_mapping pmap = foldl (\<lambda>d (k, v). dict_set d v k) [] pmap"

text \<open>
  The body of the loop of \<^verbatim>\<open>_get_params\<close> for one attribute \<open>arg\<close> of the namespace with
  value \<open>val\<close> (\<^verbatim>\<open>getattr(args, arg)\<close>).  Unpacking \<^verbatim>\<open>arg_.split(".")\<close> into two names
  raises \<^verbatim>\<open>ValueError\<close> unless the path has exactly one dot, and the item assignment
  \<^verbatim>\<open>params[arg_][subarg_] = ...\<close> raises \<^verbatim>\<open>TypeError\<close> when \<^verbatim>\<open>params[arg_]\<close> is not a
  dictionary.
\<close>

definition resolve_arg ::
  "'a params_schema \<Rightarrow> (string, string) dict \<Rightarrow> (string, 'a pyval) dict \<Rightarrow>
   string \<times> 'a pyval \<Rightarrow> py_exception + (string, 'a pyval) dict" where
  "resolve_arg schema imap params av =
     (case av of (arg, val) \<Rightarrow>
        if arg \<in> set (dict_keys schema) \<and> val \<noteq> PNone then
          Inr (dict_set params arg val)
        else
          (case dict_get imap arg of
             Some path \<Rightarrow>
               if CHR ''.'' \<in> set path then
                 (case split_dot path of
                    [arg', subarg] \<Rightarrow>
                      (let params1 =
                             (if dict_get params arg' = None
                              then dict_set params arg' (PDict []) else params)
                       in case dict_get params1 arg' of
                            Some (PDict d) \<Rightarrow>
                              Inr (dict_set params1 arg' (PDict (dict_set d subarg val)))
                          | _ \<Rightarrow> Inl TypeError)
                  | _ \<Rightarrow> Inl ValueError)
               else Inr (dict_set params path val)
           | None \<Rightarrow> Inr params))"

text \<open>
  The loop \<^verbatim>\<open>for arg in args.__dict__\<close>, over the attributes of the namespace in their
  order, each with its value; an exception ends it.
\<close>

fun params_loop ::
  "'a params_schema \<Rightarrow> (string, string) dict \<Rightarrow> (string \<times> 'a pyval) list \<Rightarrow>
   (string, 'a pyval) dict \<Rightarrow> py_exception + (string, 'a pyval) dict" where
  "params_loop schema imap [] params = Inr params"
| "params_loop schema imap (av # rest) params =
     (case resolve_arg schema imap params av of
        Inl e \<Rightarrow> Inl e
      | Inr params' \<Rightarrow> params_loop schema imap rest params')"

definition get_params ::
  "'a params_schema \<Rightarrow> params_mapping \<Rightarrow> (string \<times> 'a pyval) list \<Rightarrow>
   py_exception + (string, 'a pyval) dict" where
  "get_params schema pmap args = params_loop schema (inv_params_mapping pmap) args []"

section \<open>BatchRunner: the loop of \<^verbatim>\<open>run\<close>\<close>

text \<open>
  The attributes of the parsed command line that the loop reads.  \<^verbatim>\<open>--processors\<close> has
  \<^verbatim>\<open>type=int\<close> and the four output flags are \<^verbatim>\<open>store_true\<close> flags.
\<close>

record namespace =
  processors :: int
  media_file :: "string list"
  output_txt :: bool
  output_vtt :: bool
  output_srt :: bool
  output_csv :: bool

text \<open>\<^verbatim>\<open>int(args.processors) if args.processors else None\<close>\<close>

definition n_processors :: "namespace \<Rightarrow> int option" where
  "n_processors args = (if processors args \<noteq> 0 then Some (processors args) else None)"

text \<open>
  The engine (\<^verbatim>\<open>pywhispercpp.model.Model\<close>) is external and has a state of its own.  A
  call either returns or raises; what the engine answers in iteration \<open>i\<close> of the loop is
  \<open>transcribe m i file n\<close> and \<open>print_timings m i\<close>.
\<close>

datatype 'a outcome = Returns 'a | Raises py_exception

record 'seg model =
  transcribe :: "nat \<Rightarrow> string \<Rightarrow> int option \<Rightarrow> 'seg list outcome"
  print_timings :: "nat \<Rightarrow> unit outcome"

text \<open>
  The writers \<^verbatim>\<open>utils.output_txt\<close>, \<^verbatim>\<open>output_vtt\<close>, \<^verbatim>\<open>output_srt\<close> and \<^verbatim>\<open>output_csv\<close> are
  defined outside the two example files.  A writer takes the segments and the path of the
  media file, writes a file and returns its path; \<open>utils fmt segs file\<close> is that path.
\<close>

datatype fmt = Txt | Vtt | Srt | Csv

type_synonym 'seg utils = "fmt \<Rightarrow> 'seg list \<Rightarrow> string \<Rightarrow> string"

text \<open>What the loop does that can be observed: the lines it logs and the calls it makes.\<close>

datatype 'seg event =
    Info_processing string
  | Transcribe string "int option"
  | Print_timings
  | Info_stopped
  | Error_processing string py_exception
  | Info_saving fmt
  | Output fmt "'seg list" string
  | Info_saved fmt string
  | Info_segment nat 'seg

text \<open>
  The local variable \<^verbatim>\<open>segs\<close> of \<^verbatim>\<open>run\<close> is assigned inside the loop only: it is unbound
  (\<open>None\<close>) until a call of \<^verbatim>\<open>transcribe\<close> has returned, and no iteration resets it.
\<close>

record 'seg state =
  segs :: "'seg list option"
  trace :: "'seg event list"

definition initial_state :: "'seg state" where
  "initial_state = \<lparr>segs = None, trace = []\<rparr>"

definition log_events :: "'seg event list \<Rightarrow> 'seg state \<Rightarrow> 'seg state" where
  "log_events es st = st\<lparr>trace := trace st @ es\<rparr>"

text \<open>How an iteration, and the loop, end: normally, by \<^verbatim>\<open>break\<close>, or by an exception.\<close>

datatype signal = Normal | Break | Raise py_exception

text \<open>One of the four blocks \<^verbatim>\<open>if args.output_<fmt>: ...\<close> (lines 81 to 96).\<close>

definition save_as :: "'seg utils \<Rightarrow> fmt \<Rightarrow> 'seg list \<Rightarrow> string \<Rightarrow> 'seg event list" where
  "save_as utils f s file = [Info_saving f, Output f s file, Info_saved f (utils f s file)]"

text \<open>The body of \<^verbatim>\<open>if segs:\<close> (lines 80 to 99).\<close>

definition dispatch :: "'seg utils \<Rightarrow> namespace \<Rightarrow> 'seg list \<Rightarrow> string \<Rightarrow> 'seg event list" where
  "dispatch utils args s file =
     (if output_txt args then save_as utils Txt s file else []) @
     (if output_vtt args then save_as utils Vtt s file else []) @
     (if output_srt args then save_as utils Srt s file else []) @
     (if output_csv args then save_as utils Csv s file
      else map (\<lambda>(i, seg). Info_segment i seg) (enumerate 0 s))"

text \<open>The \<^verbatim>\<open>try\<close> block (lines 67 to 72): the exception it raised, if any, and the state.\<close>

definition try_block ::
  "'seg model \<Rightarrow> namespace \<Rightarrow> nat \<Rightarrow> string \<Rightarrow> 'seg state \<Rightarrow> py_exception option \<times> 'seg state" where
  "try_block m args i file st =
     (let st1 = log_events [Info_processing file, Transcribe file (n_processors args)] st
      in case transcribe m i file (n_processors args) of
           Raises e \<Rightarrow> (Some e, st1)
         | Returns s \<Rightarrow>
             (let st2 = log_events [Print_timings] (st1\<lparr>segs := Some s\<rparr>)
              in case print_timings m i of
                   Raises e \<Rightarrow> (Some e, st2)
                 | Returns _ \<Rightarrow> (None, st2)))"

text \<open>
  The two \<^verbatim>\<open>except\<close> clauses (lines 73 to 77).  An exception that is neither a
  \<^verbatim>\<open>KeyboardInterrupt\<close> nor an \<^verbatim>\<open>Exception\<close> stays raised.
\<close>

definition except_clauses ::
  "string \<Rightarrow> py_exception option \<times> 'seg state \<Rightarrow> signal \<times> 'seg state" where
  "except_clauses file r =
     (case r of
        (None, st) \<Rightarrow> (Normal, st)
      | (Some e, st) \<Rightarrow>
          if e = KeyboardInterrupt then (Break, log_events [Info_stopped] st)
          else if is_Exception e then (Normal, log_events [Error_processing file e] st)
          else (Raise e, st))"

text \<open>
  The \<^verbatim>\<open>finally\<close> clause (lines 78 to 99) runs whatever happened before.  Reading the
  unbound \<^verbatim>\<open>segs\<close> raises \<^verbatim>\<open>UnboundLocalError\<close>, which replaces a pending \<^verbatim>\<open>break\<close> or
  exception; otherwise the pending \<^verbatim>\<open>break\<close> or exception takes effect after the clause.
\<close>

definition finally_clause ::
  "'seg utils \<Rightarrow> namespace \<Rightarrow> string \<Rightarrow> signal \<times> 'seg state \<Rightarrow> signal \<times> 'seg state" where
  "finally_clause utils args file r =
     (case r of (pending, st) \<Rightarrow>
        (case segs st of
           None \<Rightarrow> (Raise UnboundLocalError, st)
         | Some s \<Rightarrow>
             if s \<noteq> [] then (pending, log_events (dispatch utils args s file) st)
             else (pending, st)))"

text \<open>One iteration of the loop (lines 66 to 99).\<close>

definition process_file ::
  "'seg model \<Rightarrow> 'seg utils \<Rightarrow> namespace \<Rightarrow> nat \<Rightarrow> string \<Rightarrow> 'seg state \<Rightarrow> signal \<times> 'seg state" where
  "process_file m utils args i file st =
     finally_clause utils args file (except_clauses file (try_block m args i file st))"

text \<open>
  \<^verbatim>\<open>for file in args.media_file\<close> (lines 65 to 99), from iteration \<open>i\<close> on.  The lines
  before the loop (54 to 64) build the engine and log; they do not touch \<^verbatim>\<open>segs\<close>.
\<close>

fun run_loop ::
  "'seg model \<Rightarrow> 'seg utils \<Rightarrow> namespace \<Rightarrow> nat \<Rightarrow> string list \<Rightarrow> 'seg state \<Rightarrow>
   signal \<times> 'seg state" where
  "run_loop m utils args i [] st = (Normal, st)"
| "run_loop m utils args i (file # files) st =
     (case process_file m utils args i file st of
        (Normal, st') \<Rightarrow> run_loop m utils args (Suc i) files st'
      | (Break, st') \<Rightarrow> (Break, st')
      | (Raise e, st') \<Rightarrow> (Raise e, st'))"

definition run :: "'seg model \<Rightarrow> 'seg utils \<Rightarrow> namespace \<Rightarrow> signal \<times> 'seg state" where
  "run m utils args = run_loop m utils args 0 (media_file args) initial_state"

text \<open>Reading a trace.\<close>

fun is_transcribe :: "'seg event \<Rightarrow> bool" where
  "is_transcribe (Transcribe file n) = True"
| "is_transcribe _ = False"

fun is_segment_line :: "'seg event \<Rightarrow> bool" where
  "is_segment_line (Info_segment i seg) = True"
| "is_segment_line _ = False"

fun is_output :: "'seg event \<Rightarrow> bool" where
  "is_output (Output f s file) = True"
| "is_output _ = False"

text \<open>
  A \<^verbatim>\<open>KeyboardInterrupt\<close> arrives while iteration \<open>i\<close> processes \<open>file\<close>: during the
  call of \<^verbatim>\<open>transcribe\<close>, or during the call of \<^verbatim>\<open>print_timings\<close> after it.
\<close>

definition interrupted_at :: "'seg model \<Rightarrow> namespace \<Rightarrow> nat \<Rightarrow> string \<Rightarrow> bool" where
  "interrupted_at m args i file =
     (case transcribe m i file (n_processors args) of
        Raises e \<Rightarrow> e = KeyboardInterrupt
      | Returns s \<Rightarrow> print_timings m i = Raises KeyboardInterrupt)"

section \<open>The flags of the command line: \<^verbatim>\<open>main\<close>\<close>

text \<open>
  An \<^verbatim>\<open>argparse\<close> parser, as far as the registration of flags goes: the option strings
  registered so far.  For a flag \<^verbatim>\<open>--name\<close>, \<^verbatim>\<open>add_argument\<close> raises \<^verbatim>\<open>ValueError\<close> when
  nothing is left of it after \<^verbatim>\<open>lstrip('-')\<close> (no destination can be derived) and
  \<^verbatim>\<open>ArgumentError\<close> when the option string is registered already.
\<close>

type_synonym parser = "string list"

definition add_argument :: "parser \<Rightarrow> string \<Rightarrow> py_exception + parser" where
  "add_argument parser flag =
     (if dropWhile (\<lambda>c. c = CHR ''-'') flag = [] then Inl ValueError
      else if flag \<in> set parser then Inl ArgumentError
      else Inr (parser @ [flag]))"

text \<open>
  The parser when the loop over the schema starts (lines 104 to 142): the help flags that
  \<^verbatim>\<open>ArgumentParser\<close> adds by itself and the flags \<^verbatim>\<open>main\<close> names one by one.
\<close>

definition main_parser :: parser where
  "main_parser =
     [''-h'', ''--help'', ''-m'', ''--model'', ''--version'', ''--processors'',
      ''-otxt'', ''--output-txt'', ''-ovtt'', ''--output-vtt'',
      ''-osrt'', ''--output-srt'', ''-ocsv'', ''--output-csv'']"

text \<open>\<^verbatim>\<open>f"--{name.replace('_', '-')}"\<close>\<close>

definition flag_of :: "string \<Rightarrow> string" where
  "flag_of name = ''--'' @ replace_underscores name"

text \<open>
  The inner loop \<^verbatim>\<open>for dft_key, dft_val in default_.items()\<close> (lines 151 to 160):
  \<^verbatim>\<open>if map_val:\<close> holds when the mapping has the path and the shown name is not empty.
\<close>

fun add_default_items ::
  "parser \<Rightarrow> params_mapping \<Rightarrow> string \<Rightarrow> (string \<times> 'a pyval) list \<Rightarrow> py_exception + parser" where
  "add_default_items parser pmap param [] = Inr parser"
| "add_default_items parser pmap param ((dft_key, dft_val) # items) =
     (case dict_get pmap (param @ ''.'' @ dft_key) of
        None \<Rightarrow> add_default_items parser pmap param items
      | Some map_val \<Rightarrow>
          if map_val \<noteq> [] then
            (case add_argument parser (flag_of map_val) of
               Inl e \<Rightarrow> Inl e
             | Inr parser' \<Rightarrow> add_default_items parser' pmap param items)
          else add_default_items parser pmap param items)"

text \<open>
  The body of the loop over the schema (lines 146 to 175).  \<^verbatim>\<open>default_.items()\<close> raises
  \<^verbatim>\<open>AttributeError\<close> when the default of a parameter of type \<^verbatim>\<open>dict\<close> is no dictionary.
\<close>

definition add_param ::
  "parser \<Rightarrow> params_mapping \<Rightarrow> string \<times> 'a param_fields \<Rightarrow> py_exception + parser" where
  "add_param parser pmap pf =
     (case pf of (param, pfields) \<Rightarrow>
        if ptype pfields = Tdict then
          (case pdefault pfields of
             PDict items \<Rightarrow> add_default_items parser pmap param items
           | _ \<Rightarrow> Inl AttributeError)
        else
          (case dict_get pmap param of
             Some mapped_param \<Rightarrow> add_argument parser (flag_of mapped_param)
           | None \<Rightarrow> add_argument parser (flag_of param)))"

text \<open>\<^verbatim>\<open>for param in constants.PARAMS_SCHEMA\<close> (lines 145 to 175).\<close>

fun add_schema_params ::
  "parser \<Rightarrow> 'a params_schema \<Rightarrow> params_mapping \<Rightarrow> py_exception + parser" where
  "add_schema_params parser [] pmap = Inr parser"
| "add_schema_params parser (pf # schema) pmap =
     (case add_param parser pmap pf of
        Inl e \<Rightarrow> Inl e
      | Inr parser' \<Rightarrow> add_schema_params parser' schema pmap)"

text \<open>
  The flags the schema stands for, said without the parser: one flag for a parameter
  that is not of type \<^verbatim>\<open>dict\<close>, named after the shown name if the mapping has the
  parameter and after the parameter otherwise; for a parameter of type \<^verbatim>\<open>dict\<close>, one flag
  for each key of its default whose path \<^verbatim>\<open>param.key\<close> the mapping maps to a name that is
  not empty, and none for the other keys.
\<close>

definition item_flags :: "params_mapping \<Rightarrow> string \<Rightarrow> string \<times> 'a pyval \<Rightarrow> string list" where
  "item_flags pmap param kv =
     (case dict_get pmap (param @ ''.'' @ fst kv) of
        None \<Rightarrow> []
      | Some map_val \<Rightarrow> if map_val \<noteq> [] then [flag_of map_val] else [])"

definition entry_flags :: "params_mapping \<Rightarrow> string \<times> 'a param_fields \<Rightarrow> string list" where
  "entry_flags pmap pf =
     (if ptype (snd pf) = Tdict then
        (case pdefault (snd pf) of
           PDict items \<Rightarrow> concat (map (item_flags pmap (fst pf)) items)
         | _ \<Rightarrow> [])
      else [flag_of (case dict_get pmap (fst pf) of Some mapped_param \<Rightarrow> mapped_param
                     | None \<Rightarrow> fst pf)])"

definition schema_flags :: "'a params_schema \<Rightarrow> params_mapping \<Rightarrow> string list" where
  "schema_flags schema pmap = concat (map (entry_flags pmap) schema)"

text \<open>Every default of a parameter of type \<^verbatim>\<open>dict\<close> is a dictionary.\<close>

fun dict_default :: "string \<times> 'a param_fields \<Rightarrow> bool" where
  "dict_default (param, pfields) =
     (if ptype pfields = Tdict then (case pdefault pfields of PDict items \<Rightarrow> True | _ \<Rightarrow> False)
      else True)"

text \<open>A flag from which \<^verbatim>\<open>argparse\<close> can derive a destination.\<close>

definition has_dest :: "string \<Rightarrow> bool" where
  "has_dest flag = (dropWhile (\<lambda>c. c = CHR ''-'') flag \<noteq> [])"

section \<open>Example tables, engines and command lines\<close>

definition example_schema :: "int params_schema" where
  "example_schema =
     [(''n_threads'',
         \<lparr>ptype = Tother ''int'', description = ''Number of threads'', pdefault = PAtom 4\<rparr>),
      (''language'',
         \<lparr>ptype = Tother ''str'', description = ''Language'', pdefault = PNone\<rparr>),
      (''greedy'',
         \<lparr>ptype = Tdict, description = ''Greedy'', pdefault = PDict [(''best_of'', PAtom 1)]\<rparr>),
      (''beam_search'',
         \<lparr>ptype = Tdict, description = ''Beam search'',
          pdefault = PDict [(''beam_size'', PAtom 5), (''patience'', PAtom 1)]\<rparr>)]"

definition example_mapping :: params_mapping where
  "example_mapping =
     [(''greedy.best_of'', ''best_of''),
      (''beam_search.beam_size'', ''beam_size''),
      (''language'', ''lang'')]"

text \<open>Tables in which \<^verbatim>\<open>language\<close> is a schema key and a shown name at once.\<close>

definition overlap_schema :: "int params_schema" where
  "overlap_schema =
     [(''language'',
         \<lparr>ptype = Tother ''str'', description = ''Language'', pdefault = PNone\<rparr>)]"

definition overlap_mapping :: params_mapping where
  "overlap_mapping = [(''decoder.language'', ''language'')]"

text \<open>Tables in which two names are schema keys and shown names at once.\<close>

definition two_overlap_schema :: "int params_schema" where
  "two_overlap_schema =
     [(''language'',
         \<lparr>ptype = Tother ''str'', description = ''Language'', pdefault = PNone\<rparr>),
      (''prompt'',
         \<lparr>ptype = Tother ''str'', description = ''Prompt'', pdefault = PNone\<rparr>)]"

definition two_overlap_mapping :: params_mapping where
  "two_overlap_mapping = [(''decoder.language'', ''language''), (''decoder.prompt'', ''prompt'')]"

text \<open>An engine that answers iteration \<open>i\<close> with the \<open>i\<close>-th pair of a script.\<close>

definition scripted_model :: "('seg list outcome \<times> unit outcome) list \<Rightarrow> 'seg model" where
  "scripted_model script =
     \<lparr>transcribe = (\<lambda>i file n. if i < length script then fst (script ! i) else Returns []),
      print_timings = (\<lambda>i. if i < length script then snd (script ! i) else Returns ())\<rparr>"

text \<open>
  Engines for three files: the second call of \<^verbatim>\<open>transcribe\<close> raises an error; it is
  interrupted; the first call raises an error; and, for two files, the second call of
  \<^verbatim>\<open>print_timings\<close> raises an error or is interrupted.
\<close>

definition failing_second :: "nat model" where
  "failing_second =
     scripted_model [(Returns [1, 2], Returns ()), (Raises (Exception ''boom''), Returns ()),
                     (Returns [3], Returns ())]"

definition interrupted_second :: "nat model" where
  "interrupted_second =
     scripted_model [(Returns [1, 2], Returns ()), (Raises KeyboardInterrupt, Returns ()),
                     (Returns [3], Returns ())]"

definition failing_first :: "nat model" where
  "failing_first =
     scripted_model [(Raises (Exception ''boom''), Returns ()), (Returns [3], Returns ())]"

definition timings_fail_second :: "nat model" where
  "timings_fail_second =
     scripted_model [(Returns [1, 2], Returns ()), (Returns [3], Raises (Exception ''boom''))]"

definition timings_interrupted_second :: "nat model" where
  "timings_interrupted_second =
     scripted_model [(Returns [1, 2], Returns ()), (Returns [3], Raises KeyboardInterrupt)]"

definition example_utils :: "nat utils" where
  "example_utils f s file =
     file @ (case f of Txt \<Rightarrow> ''.txt'' | Vtt \<Rightarrow> ''.vtt'' | Srt \<Rightarrow> ''.srt'' | Csv \<Rightarrow> ''.csv'')"

definition example_args :: namespace where
  "example_args =
     \<lparr>processors = 1, media_file = [''a.wav'', ''b.wav'', ''c.wav''],
      output_txt = True, output_vtt = False, output_srt = False, output_csv = False\<rparr>"

definition example_args_csv :: namespace where
  "example_args_csv = example_args\<lparr>output_csv := True\<rparr>"

section \<open>Dictionaries\<close>

lemma dict_get_dict_set:
  "dict_get (dict_set d k v) k' = (if k' = k then Some v else dict_get d k')"
  by (induction d) (auto simp: dict_get_def)

lemma dict_set_twice: "dict_set (dict_set d k v) k w = dict_set d k w"
  by (induction d) auto

lemma dict_get_foldl_inv:
  "dict_get (foldl (\<lambda>d (k, v). dict_set d v k) d0 pmap) a =
     (case map_of (rev (map (\<lambda>(k, v). (v, k)) pmap)) a of
        Some k \<Rightarrow> Some k
      | None \<Rightarrow> dict_get d0 a)"
proof (induction pmap arbitrary: d0)
  case Nil
  then show ?case by simp
next
  case (Cons p pmap)
  obtain k v where p: "p = (k, v)" by (cases p)
  show ?case
    by (simp add: p Cons.IH dict_get_dict_set map_add_def split: option.splits)
qed

lemma dict_get_inv_params_mapping:
  "dict_get (inv_params_mapping pmap) a = map_of (rev (map (\<lambda>(k, v). (v, k)) pmap)) a"
proof -
  have "dict_get ([] :: (string, string) dict) a = None"
    by (simp add: dict_get_def)
  then show ?thesis
    unfolding inv_params_mapping_def dict_get_foldl_inv
    by (simp split: option.splits)
qed

lemma inv_params_mapping_None:
  "dict_get (inv_params_mapping pmap) a = None \<longleftrightarrow> a \<notin> snd ` set pmap"
proof -
  have "fst ` set (rev (map (\<lambda>(k, v). (v, k)) pmap)) = snd ` set pmap"
    by force
  then show ?thesis
    by (simp add: dict_get_inv_params_mapping map_of_eq_None_iff del: set_rev set_map)
qed

text \<open>
  The inverse mapping resolves a shown name to a path of the table only, and to the
  path of the table when no two paths share a shown name.
\<close>

lemma inv_params_mapping_SomeD:
  "dict_get (inv_params_mapping pmap) a = Some path \<Longrightarrow> (path, a) \<in> set pmap"
  by (auto simp: dict_get_inv_params_mapping dest!: map_of_SomeD)

lemma inv_params_mapping_distinct:
  assumes "distinct (map snd pmap)" and "(path, a) \<in> set pmap"
  shows "dict_get (inv_params_mapping pmap) a = Some path"
proof -
  have "map fst (rev (map (\<lambda>(k, v). (v, k)) pmap)) = rev (map snd pmap)"
    by (simp add: rev_map case_prod_beta)
  with assms(1) have "distinct (map fst (rev (map (\<lambda>(k, v). (v, k)) pmap)))"
    by simp
  moreover have "(a, path) \<in> set (rev (map (\<lambda>(k, v). (v, k)) pmap))"
    using assms(2) by force
  ultimately show ?thesis
    by (simp add: dict_get_inv_params_mapping del: set_rev map_of_eq_Some_iff)
qed

section \<open>The loop of \<^verbatim>\<open>_get_params\<close>\<close>

lemma params_loop_append:
  "params_loop schema imap (xs @ ys) params =
     (case params_loop schema imap xs params of
        Inl e \<Rightarrow> Inl e
      | Inr params' \<Rightarrow> params_loop schema imap ys params')"
  by (induction xs arbitrary: params) (auto split: sum.splits)

lemma resolve_arg_unrecognised:
  "a \<notin> set (dict_keys schema) \<Longrightarrow> dict_get imap a = None \<Longrightarrow>
   resolve_arg schema imap params (a, v) = Inr params"
  by (simp add: resolve_arg_def)

lemma split_dot_nodot: "CHR ''.'' \<notin> set s \<Longrightarrow> split_dot s = [s]"
  by (induction s) auto

lemma split_dot_one_dot:
  "CHR ''.'' \<notin> set g \<Longrightarrow> CHR ''.'' \<notin> set f \<Longrightarrow> split_dot (g @ CHR ''.'' # f) = [g, f]"
  by (induction g) (auto simp: split_dot_nodot)

lemma length_split_dot: "length (split_dot s) = Suc (count_list s (CHR ''.''))"
  by (induction s) (auto split: list.splits)

lemma split_dot_many:
  assumes "1 < count_list path (CHR ''.'')"
  shows "(case split_dot path of [g, f] \<Rightarrow> x g f | _ \<Rightarrow> y) = y"
proof -
  have "2 < length (split_dot path)"
    using assms by (simp add: length_split_dot)
  then show ?thesis
    by (auto split: list.splits)
qed

lemma get_params_snoc:
  "get_params schema pmap (args @ [av]) =
     (case get_params schema pmap args of
        Inl e \<Rightarrow> Inl e
      | Inr p \<Rightarrow> resolve_arg schema (inv_params_mapping pmap) p av)"
  by (simp add: get_params_def params_loop_append split: sum.splits)

lemma map_of_rev_swap_filter:
  "map_of (rev (map (\<lambda>(k, v). (v, k)) (filter (\<lambda>(k, e). e \<notin> K) pmap))) a =
     (if a \<in> K then None else map_of (rev (map (\<lambda>(k, v). (v, k)) pmap)) a)"
  by (induction pmap) (auto simp: map_add_def split: option.splits)

lemma inv_params_mapping_filter:
  "dict_get (inv_params_mapping (filter (\<lambda>(k, e). e \<notin> K) pmap)) a =
     (if a \<in> K then None else dict_get (inv_params_mapping pmap) a)"
  by (simp only: dict_get_inv_params_mapping map_of_rev_swap_filter)

lemma resolve_arg_schema_key:
  "a \<in> set (dict_keys schema) \<Longrightarrow> v \<noteq> PNone \<Longrightarrow>
   resolve_arg schema imap params (a, v) = Inr (dict_set params a v)"
  by (simp add: resolve_arg_def)

lemma resolve_arg_filter:
  assumes "a \<in> set (dict_keys schema) \<and> a \<in> snd ` set pmap \<longrightarrow> v \<noteq> PNone"
  shows "resolve_arg schema
           (inv_params_mapping (filter (\<lambda>(k, e). e \<notin> set (dict_keys schema)) pmap)) params (a, v) =
         resolve_arg schema (inv_params_mapping pmap) params (a, v)"
proof (cases "a \<in> set (dict_keys schema)")
  case True
  show ?thesis
  proof (cases "v = PNone")
    case True
    with assms \<open>a \<in> set (dict_keys schema)\<close> have "a \<notin> snd ` set pmap"
      by blast
    then have "dict_get (inv_params_mapping pmap) a = None"
      by (simp add: inv_params_mapping_None)
    with True \<open>a \<in> set (dict_keys schema)\<close> show ?thesis
      by (simp add: resolve_arg_def inv_params_mapping_filter)
  next
    case False
    with True show ?thesis
      by (simp add: resolve_arg_schema_key)
  qed
next
  case False
  then show ?thesis
    by (simp add: resolve_arg_def inv_params_mapping_filter)
qed

lemma params_loop_cong:
  assumes "\<And>av params. av \<in> set args \<Longrightarrow> resolve_arg schema imap params av = resolve_arg schema imap' params av"
  shows "params_loop schema imap args params = params_loop schema imap' args params"
  using assms by (induction args arbitrary: params) (auto split: sum.splits)

lemma resolve_arg_None:
  "resolve_arg schema imap params (a, PNone) = resolve_arg [] imap params (a, PNone)"
  by (simp add: resolve_arg_def dict_keys_def)

lemmas resolver_eval = get_params_def example_schema_def example_mapping_def inv_params_mapping_def
  resolve_arg_def dict_keys_def dict_get_def overlap_schema_def overlap_mapping_def

section \<open>ParameterResolver: the claims\<close>

text \<open>
  C2 as stated fails.  With \<^verbatim>\<open>greedy\<close> a schema key whose argument holds a value that is
  no dictionary and \<^verbatim>\<open>best_of\<close> shown for the path \<^verbatim>\<open>greedy.best_of\<close>, the group is
  present already, it is not initialised, and the store \<^verbatim>\<open>params["greedy"]["best_of"] = 5\<close>
  raises \<^verbatim>\<open>TypeError\<close>: nothing is stored at \<^verbatim>\<open>result[group][field]\<close> and no result is
  returned.
\<close>

theorem get_params_group_counterexample:
  "get_params example_schema example_mapping [(''greedy'', PAtom 3), (''best_of'', PAtom 5)] =
   Inl TypeError"
  by (simp add: resolver_eval)

text \<open>
  C2 (amended).  Let the resolver have worked through the arguments \<open>args\<close> and hold the
  dictionary \<open>p\<close>, and let \<open>(a, v)\<close> be the next argument.
  \<^item> If \<open>a\<close> is a schema key and \<open>v\<close> is not \<^verbatim>\<open>None\<close>, then \<open>v\<close> is stored at \<open>result[a]\<close>.
  \<^item> Otherwise, if the inverse mapping resolves \<open>a\<close> to a path without a dot, \<open>v\<close> is
    stored at \<open>result[path]\<close>.
  \<^item> Otherwise, if it resolves \<open>a\<close> to a path \<open>g.f\<close> with exactly one dot, then: when \<open>g\<close>
    is absent, \<open>result[g]\<close> becomes the new dictionary \<open>{f: v}\<close>; when \<open>result[g]\<close> is a
    dictionary, \<open>v\<close> is stored at \<open>result[g][f]\<close> and its other fields stay; when
    \<open>result[g]\<close> holds anything else, the resolver raises \<^verbatim>\<open>TypeError\<close>.
  \<^item> A path with more than one dot raises \<^verbatim>\<open>ValueError\<close>.
  \<^item> An argument that is neither is ignored.
  In every case that returns, all other entries of the result stay as they were.
\<close>

theorem get_params_assigns:
  assumes "get_params schema pmap args = Inr p"
  shows
    "(a \<in> set (dict_keys schema) \<and> v \<noteq> PNone \<longrightarrow>
        (\<exists>r. get_params schema pmap (args @ [(a, v)]) = Inr r \<and>
             dict_get r a = Some v \<and> (\<forall>k. k \<noteq> a \<longrightarrow> dict_get r k = dict_get p k))) \<and>
     (\<not> (a \<in> set (dict_keys schema) \<and> v \<noteq> PNone) \<and>
      dict_get (inv_params_mapping pmap) a = Some path \<and> CHR ''.'' \<notin> set path \<longrightarrow>
        (\<exists>r. get_params schema pmap (args @ [(a, v)]) = Inr r \<and>
             dict_get r path = Some v \<and> (\<forall>k. k \<noteq> path \<longrightarrow> dict_get r k = dict_get p k))) \<and>
     (\<not> (a \<in> set (dict_keys schema) \<and> v \<noteq> PNone) \<and>
      dict_get (inv_params_mapping pmap) a = Some (g @ CHR ''.'' # f) \<and>
      CHR ''.'' \<notin> set g \<and> CHR ''.'' \<notin> set f \<and> dict_get p g = None \<longrightarrow>
        (\<exists>r. get_params schema pmap (args @ [(a, v)]) = Inr r \<and>
             dict_get r g = Some (PDict [(f, v)]) \<and>
             (\<forall>k. k \<noteq> g \<longrightarrow> dict_get r k = dict_get p k))) \<and>
     (\<not> (a \<in> set (dict_keys schema) \<and> v \<noteq> PNone) \<and>
      dict_get (inv_params_mapping pmap) a = Some (g @ CHR ''.'' # f) \<and>
      CHR ''.'' \<notin> set g \<and> CHR ''.'' \<notin> set f \<and> dict_get p g = Some (PDict d) \<longrightarrow>
        (\<exists>r d'. get_params schema pmap (args @ [(a, v)]) = Inr r \<and>
             dict_get r g = Some (PDict d') \<and> dict_get d' f = Some v \<and>
             (\<forall>f'. f' \<noteq> f \<longrightarrow> dict_get d' f' = dict_get d f') \<and>
             (\<forall>k. k \<noteq> g \<longrightarrow> dict_get r k = dict_get p k))) \<and>
     (\<not> (a \<in> set (dict_keys schema) \<and> v \<noteq> PNone) \<and>
      dict_get (inv_params_mapping pmap) a = Some (g @ CHR ''.'' # f) \<and>
      CHR ''.'' \<notin> set g \<and> CHR ''.'' \<notin> set f \<and>
      (dict_get p g = Some PNone \<or> dict_get p g = Some (PAtom x)) \<longrightarrow>
        get_params schema pmap (args @ [(a, v)]) = Inl TypeError) \<and>
     (\<not> (a \<in> set (dict_keys schema) \<and> v \<noteq> PNone) \<and>
      dict_get (inv_params_mapping pmap) a = Some path \<and> 1 < count_list path (CHR ''.'') \<longrightarrow>
        get_params schema pmap (args @ [(a, v)]) = Inl ValueError) \<and>
     (\<not> (a \<in> set (dict_keys schema) \<and> v \<noteq> PNone) \<and>
      dict_get (inv_params_mapping pmap) a = None \<longrightarrow>
        get_params schema pmap (args @ [(a, v)]) = Inr p)"
proof -
  let ?I = "inv_params_mapping pmap"
  have step: "get_params schema pmap (args @ [(a, v)]) = resolve_arg schema ?I p (a, v)"
    using assms by (simp add: get_params_snoc)
  have schema_case: "a \<in> set (dict_keys schema) \<and> v \<noteq> PNone \<longrightarrow>
        (\<exists>r. get_params schema pmap (args @ [(a, v)]) = Inr r \<and>
             dict_get r a = Some v \<and> (\<forall>k. k \<noteq> a \<longrightarrow> dict_get r k = dict_get p k))"
    by (simp add: step resolve_arg_def dict_get_dict_set)
  have plain_case: "\<not> (a \<in> set (dict_keys schema) \<and> v \<noteq> PNone) \<and>
      dict_get ?I a = Some path \<and> CHR ''.'' \<notin> set path \<longrightarrow>
        (\<exists>r. get_params schema pmap (args @ [(a, v)]) = Inr r \<and>
             dict_get r path = Some v \<and> (\<forall>k. k \<noteq> path \<longrightarrow> dict_get r k = dict_get p k))"
    by (auto simp: step resolve_arg_def dict_get_dict_set)
  have fresh_case: "\<not> (a \<in> set (dict_keys schema) \<and> v \<noteq> PNone) \<and>
      dict_get ?I a = Some (g @ CHR ''.'' # f) \<and>
      CHR ''.'' \<notin> set g \<and> CHR ''.'' \<notin> set f \<and> dict_get p g = None \<longrightarrow>
        (\<exists>r. get_params schema pmap (args @ [(a, v)]) = Inr r \<and>
             dict_get r g = Some (PDict [(f, v)]) \<and>
             (\<forall>k. k \<noteq> g \<longrightarrow> dict_get r k = dict_get p k))"
    by (auto simp: step resolve_arg_def dict_get_dict_set split_dot_one_dot dict_set_twice)
  have nested_case: "\<not> (a \<in> set (dict_keys schema) \<and> v \<noteq> PNone) \<and>
      dict_get ?I a = Some (g @ CHR ''.'' # f) \<and>
      CHR ''.'' \<notin> set g \<and> CHR ''.'' \<notin> set f \<and> dict_get p g = Some (PDict d) \<longrightarrow>
        (\<exists>r d'. get_params schema pmap (args @ [(a, v)]) = Inr r \<and>
             dict_get r g = Some (PDict d') \<and> dict_get d' f = Some v \<and>
             (\<forall>f'. f' \<noteq> f \<longrightarrow> dict_get d' f' = dict_get d f') \<and>
             (\<forall>k. k \<noteq> g \<longrightarrow> dict_get r k = dict_get p k))"
    by (auto simp: step resolve_arg_def dict_get_dict_set split_dot_one_dot)
  have type_error: "\<not> (a \<in> set (dict_keys schema) \<and> v \<noteq> PNone) \<and>
      dict_get ?I a = Some (g @ CHR ''.'' # f) \<and>
      CHR ''.'' \<notin> set g \<and> CHR ''.'' \<notin> set f \<and>
      (dict_get p g = Some PNone \<or> dict_get p g = Some (PAtom x)) \<longrightarrow>
        get_params schema pmap (args @ [(a, v)]) = Inl TypeError"
    by (auto simp: step resolve_arg_def split_dot_one_dot)
  have value_error: "\<not> (a \<in> set (dict_keys schema) \<and> v \<noteq> PNone) \<and>
      dict_get ?I a = Some path \<and> 1 < count_list path (CHR ''.'') \<longrightarrow>
        get_params schema pmap (args @ [(a, v)]) = Inl ValueError"
  proof (intro impI, elim conjE)
    assume a: "\<not> (a \<in> set (dict_keys schema) \<and> v \<noteq> PNone)" "dict_get ?I a = Some path"
      and many: "1 < count_list path (CHR ''.'')"
    from many have "CHR ''.'' \<in> set path"
      by (metis count_notin not_less_zero)
    with a show "get_params schema pmap (args @ [(a, v)]) = Inl ValueError"
      unfolding step resolve_arg_def by (simp add: split_dot_many [OF many])
  qed
  have ignored: "\<not> (a \<in> set (dict_keys schema) \<and> v \<noteq> PNone) \<and> dict_get ?I a = None \<longrightarrow>
        get_params schema pmap (args @ [(a, v)]) = Inr p"
    by (auto simp: step resolve_arg_def)
  from schema_case plain_case fresh_case nested_case type_error value_error ignored
  show ?thesis by blast
qed

theorem get_params_assigns_witness:
  "(\<exists>r. get_params example_schema example_mapping ([] @ [(''n_threads'', PAtom 2)]) = Inr r \<and>
        dict_get r ''n_threads'' = Some (PAtom 2)) \<and>
   (\<exists>r. get_params example_schema example_mapping
          ([(''n_threads'', PAtom 2)] @ [(''best_of'', PAtom 5)]) = Inr r \<and>
        dict_get r ''greedy'' = Some (PDict [(''best_of'', PAtom 5)]) \<and>
        dict_get r ''n_threads'' = Some (PAtom 2)) \<and>
   (\<exists>r d'. get_params example_schema example_mapping
          ([(''greedy'', PDict [(''temperature'', PAtom 0)])] @ [(''best_of'', PAtom 5)]) = Inr r \<and>
        dict_get r ''greedy'' = Some (PDict d') \<and> dict_get d' ''best_of'' = Some (PAtom 5) \<and>
        dict_get d' ''temperature'' = Some (PAtom 0)) \<and>
   get_params example_schema example_mapping
          ([(''greedy'', PAtom 3)] @ [(''best_of'', PAtom 5)]) = Inl TypeError"
proof -
  have h0: "get_params example_schema example_mapping [] = Inr []"
    by (simp add: get_params_def)
  have h1: "get_params example_schema example_mapping [(''n_threads'', PAtom 2)] =
      Inr [(''n_threads'', PAtom 2)]"
    by (simp add: resolver_eval)
  have h2: "get_params example_schema example_mapping [(''greedy'', PDict [(''temperature'', PAtom 0)])] =
      Inr [(''greedy'', PDict [(''temperature'', PAtom 0)])]"
    by (simp add: resolver_eval)
  have h3: "get_params example_schema example_mapping [(''greedy'', PAtom 3)] =
      Inr [(''greedy'', PAtom 3)]"
    by (simp add: resolver_eval)
  have key: "''best_of'' \<notin> set (dict_keys example_schema)"
    "dict_get (inv_params_mapping example_mapping) ''best_of'' = Some (''greedy'' @ CHR ''.'' # ''best_of'')"
    "''n_threads'' \<in> set (dict_keys example_schema)"
    by (simp_all add: resolver_eval)
  have a: "\<exists>r. get_params example_schema example_mapping ([] @ [(''n_threads'', PAtom 2)]) = Inr r \<and>
        dict_get r ''n_threads'' = Some (PAtom 2)"
    using get_params_assigns [OF h0, where a = "''n_threads''" and v = "PAtom 2"
        and path = "''''" and g = "''''" and f = "''''" and d = "[]" and x = 0] key
    by auto
  have b: "\<exists>r. get_params example_schema example_mapping
          ([(''n_threads'', PAtom 2)] @ [(''best_of'', PAtom 5)]) = Inr r \<and>
        dict_get r ''greedy'' = Some (PDict [(''best_of'', PAtom 5)]) \<and>
        dict_get r ''n_threads'' = Some (PAtom 2)"
  proof -
    have "dict_get [(''n_threads'', PAtom (2::int))] ''greedy'' = None"
      "dict_get [(''n_threads'', PAtom (2::int))] ''n_threads'' = Some (PAtom 2)"
      by (simp_all add: dict_get_def)
    then show ?thesis
      using get_params_assigns [OF h1, where a = "''best_of''" and v = "PAtom 5"
        and path = "''''" and g = "''greedy''" and f = "''best_of''" and d = "[]" and x = 0] key
      by auto
  qed
  have c: "\<exists>r d'. get_params example_schema example_mapping
          ([(''greedy'', PDict [(''temperature'', PAtom 0)])] @ [(''best_of'', PAtom 5)]) = Inr r \<and>
        dict_get r ''greedy'' = Some (PDict d') \<and> dict_get d' ''best_of'' = Some (PAtom 5) \<and>
        dict_get d' ''temperature'' = Some (PAtom 0)"
  proof -
    have "dict_get [(''greedy'', PDict [(''temperature'', PAtom (0::int))])] ''greedy'' =
        Some (PDict [(''temperature'', PAtom 0)])"
      "dict_get [(''temperature'', PAtom (0::int))] ''temperature'' = Some (PAtom 0)"
      by (simp_all add: dict_get_def)
    then show ?thesis
      using get_params_assigns [OF h2, where a = "''best_of''" and v = "PAtom 5"
        and path = "''''" and g = "''greedy''" and f = "''best_of''"
        and d = "[(''temperature'', PAtom 0)]" and x = 0] key
      by auto
  qed
  have d: "get_params example_schema example_mapping
          ([(''greedy'', PAtom 3)] @ [(''best_of'', PAtom 5)]) = Inl TypeError"
  proof -
    have "dict_get [(''greedy'', PAtom (3::int))] ''greedy'' = Some (PAtom 3)"
      by (simp add: dict_get_def)
    then show ?thesis
      using get_params_assigns [OF h3, where a = "''best_of''" and v = "PAtom 5"
        and path = "''''" and g = "''greedy''" and f = "''best_of''" and d = "[]" and x = 3] key
      by auto
  qed
  from a b c d show ?thesis by blast
qed

text \<open>
  C6 as stated fails.  \<^verbatim>\<open>language\<close> is a schema key and the name shown for the path
  \<^verbatim>\<open>decoder.language\<close>.  When its value is \<^verbatim>\<open>None\<close> the first test of the loop fails on
  \<^verbatim>\<open>is not None\<close>, the \<^verbatim>\<open>elif\<close> takes over, and the argument is resolved through the
  mapping and its dotted path.
\<close>

theorem schema_precedence_counterexample:
  "''language'' \<in> set (dict_keys overlap_schema) \<and>
   dict_get (inv_params_mapping overlap_mapping) ''language'' = Some ''decoder.language'' \<and>
   get_params overlap_schema overlap_mapping [(''language'', PNone)] =
   Inr [(''decoder'', PDict [(''language'', PNone)])]"
  by (simp add: resolver_eval)

text \<open>
  C6 (amended).  Let \<open>a\<close> be a schema key and a shown name of the mapping at once, and let
  the resolver have worked through the arguments \<open>xs\<close>.
  \<^item> If the value of \<open>a\<close> is not \<^verbatim>\<open>None\<close>, the argument is resolved by the schema alone:
    the value is assigned at \<open>result[a]\<close>, whatever path the mapping gives for \<open>a\<close> and
    whatever the other arguments are.
  \<^item> If the value of \<open>a\<close> is \<^verbatim>\<open>None\<close>, the argument is resolved through the mapping: the
    inverse mapping has a path for \<open>a\<close>, and the step is the one of a resolver that has
    the mapping and no schema.
  \<^item> In a run in which every such argument has a value other than \<^verbatim>\<open>None\<close>, the entries
    of the mapping whose shown name is a schema key are never used: the result is the
    one for the mapping without them.
\<close>

theorem schema_takes_precedence:
  "(a \<in> set (dict_keys schema) \<and> a \<in> snd ` set pmap \<and> v \<noteq> PNone \<longrightarrow>
      get_params schema pmap (xs @ [(a, v)]) =
        (case get_params schema pmap xs of
           Inl e \<Rightarrow> Inl e
         | Inr p \<Rightarrow> Inr (dict_set p a v))) \<and>
   (a \<in> set (dict_keys schema) \<and> a \<in> snd ` set pmap \<longrightarrow>
      dict_get (inv_params_mapping pmap) a \<noteq> None \<and>
      get_params schema pmap (xs @ [(a, PNone)]) =
        (case get_params schema pmap xs of
           Inl e \<Rightarrow> Inl e
         | Inr p \<Rightarrow> resolve_arg [] (inv_params_mapping pmap) p (a, PNone))) \<and>
   ((\<forall>(b, w) \<in> set args. b \<in> set (dict_keys schema) \<and> b \<in> snd ` set pmap \<longrightarrow> w \<noteq> PNone) \<longrightarrow>
      get_params schema pmap args =
        get_params schema (filter (\<lambda>(k, e). e \<notin> set (dict_keys schema)) pmap) args)"
proof (intro conjI impI)
  assume "a \<in> set (dict_keys schema) \<and> a \<in> snd ` set pmap \<and> v \<noteq> PNone"
  then show "get_params schema pmap (xs @ [(a, v)]) =
      (case get_params schema pmap xs of
         Inl e \<Rightarrow> Inl e
       | Inr p \<Rightarrow> Inr (dict_set p a v))"
    by (simp add: get_params_snoc resolve_arg_schema_key split: sum.splits)
next
  assume "a \<in> set (dict_keys schema) \<and> a \<in> snd ` set pmap"
  then show "dict_get (inv_params_mapping pmap) a \<noteq> None"
    by (simp add: inv_params_mapping_None)
next
  show "get_params schema pmap (xs @ [(a, PNone)]) =
      (case get_params schema pmap xs of
         Inl e \<Rightarrow> Inl e
       | Inr p \<Rightarrow> resolve_arg [] (inv_params_mapping pmap) p (a, PNone))"
    by (simp add: get_params_snoc resolve_arg_None [of schema] split: sum.splits)
next
  assume all: "\<forall>(b, w) \<in> set args.
      b \<in> set (dict_keys schema) \<and> b \<in> snd ` set pmap \<longrightarrow> w \<noteq> PNone"
  have "resolve_arg schema (inv_params_mapping pmap) params av =
        resolve_arg schema
          (inv_params_mapping (filter (\<lambda>(k, e). e \<notin> set (dict_keys schema)) pmap)) params av"
    if "av \<in> set args" for av params
  proof -
    obtain b w where av: "av = (b, w)" by (cases av)
    with all that have "b \<in> set (dict_keys schema) \<and> b \<in> snd ` set pmap \<longrightarrow> w \<noteq> PNone"
      by blast
    then show ?thesis
      unfolding av by (rule resolve_arg_filter [symmetric])
  qed
  then show "get_params schema pmap args =
      get_params schema (filter (\<lambda>(k, e). e \<notin> set (dict_keys schema)) pmap) args"
    unfolding get_params_def by (rule params_loop_cong)
qed

theorem schema_takes_precedence_witness:
  "''prompt'' \<in> set (dict_keys two_overlap_schema) \<and>
   ''prompt'' \<in> snd ` set two_overlap_mapping \<and>
   ''language'' \<in> set (dict_keys two_overlap_schema) \<and>
   ''language'' \<in> snd ` set two_overlap_mapping \<and>
   get_params two_overlap_schema two_overlap_mapping ([] @ [(''language'', PNone)]) =
     Inr [(''decoder'', PDict [(''language'', PNone)])] \<and>
   get_params two_overlap_schema two_overlap_mapping
     ([(''language'', PNone)] @ [(''prompt'', PAtom 7)]) =
     Inr [(''decoder'', PDict [(''language'', PNone)]), (''prompt'', PAtom 7)] \<and>
   get_params two_overlap_schema two_overlap_mapping [(''prompt'', PAtom 7)] =
     get_params two_overlap_schema [] [(''prompt'', PAtom 7)]"
proof -
  have keys: "''prompt'' \<in> set (dict_keys two_overlap_schema)"
    "''prompt'' \<in> snd ` set two_overlap_mapping"
    "''language'' \<in> set (dict_keys two_overlap_schema)"
    "''language'' \<in> snd ` set two_overlap_mapping"
    by (simp_all add: two_overlap_schema_def two_overlap_mapping_def dict_keys_def)
  have start: "get_params two_overlap_schema two_overlap_mapping [] = Inr []"
    by (simp add: get_params_def)
  have inv: "inv_params_mapping two_overlap_mapping =
      [(''language'', ''decoder.language''), (''prompt'', ''decoder.prompt'')]"
    by (simp add: inv_params_mapping_def two_overlap_mapping_def)
  have none: "get_params two_overlap_schema two_overlap_mapping ([] @ [(''language'', PNone)]) =
      Inr [(''decoder'', PDict [(''language'', PNone)])]"
    using schema_takes_precedence [of "''language''" two_overlap_schema two_overlap_mapping
        "PAtom 0" "[]" "[]"] keys
    by (simp add: start inv resolve_arg_def dict_keys_def dict_get_def)
  have direct: "get_params two_overlap_schema two_overlap_mapping
      ([(''language'', PNone)] @ [(''prompt'', PAtom 7)]) =
      Inr [(''decoder'', PDict [(''language'', PNone)]), (''prompt'', PAtom 7)]"
    using schema_takes_precedence [of "''prompt''" two_overlap_schema two_overlap_mapping
        "PAtom 7" "[(''language'', PNone)]" "[]"] keys none
    by simp
  have filtered: "filter (\<lambda>(k, e). e \<notin> set (dict_keys two_overlap_schema)) two_overlap_mapping = []"
    by (simp add: two_overlap_schema_def two_overlap_mapping_def dict_keys_def)
  have same: "get_params two_overlap_schema two_overlap_mapping [(''prompt'', PAtom 7)] =
      get_params two_overlap_schema [] [(''prompt'', PAtom 7)]"
    using schema_takes_precedence [of "''prompt''" two_overlap_schema two_overlap_mapping
        "PAtom 7" "[]" "[(''prompt'', PAtom 7)]"]
    by (simp add: filtered)
  from keys none direct same show ?thesis
    by (simp only: simp_thms)
qed

text \<open>
  C7.  Unrecognised arguments are inert: an argument whose name is neither a schema key
  nor a shown name of the mapping can be removed from, or added to, the arguments at any
  place without changing what \<^verbatim>\<open>_get_params\<close> returns or raises.
\<close>

theorem unrecognised_argument_inert:
  assumes "a \<notin> set (dict_keys schema)" and "a \<notin> snd ` set pmap"
  shows "get_params schema pmap (xs @ (a, v) # ys) = get_params schema pmap (xs @ ys)"
proof -
  have "dict_get (inv_params_mapping pmap) a = None"
    using assms(2) by (simp add: inv_params_mapping_None)
  with assms(1) have "\<And>p. resolve_arg schema (inv_params_mapping pmap) p (a, v) = Inr p"
    by (rule resolve_arg_unrecognised)
  then show ?thesis
    by (simp add: get_params_def params_loop_append split: sum.splits)
qed

theorem unrecognised_argument_inert_witness:
  "''media_file'' \<notin> set (dict_keys example_schema) \<and>
   ''media_file'' \<notin> snd ` set example_mapping \<and>
   get_params example_schema example_mapping
     [(''n_threads'', PAtom 2), (''media_file'', PAtom 7), (''best_of'', PAtom 5)] =
   Inr [(''n_threads'', PAtom 2), (''greedy'', PDict [(''best_of'', PAtom 5)])]"
proof -
  have 1: "''media_file'' \<notin> set (dict_keys example_schema)"
    by (simp add: example_schema_def dict_keys_def)
  have 2: "''media_file'' \<notin> snd ` set example_mapping"
    by (simp add: example_mapping_def)
  have 3: "get_params example_schema example_mapping
     [(''n_threads'', PAtom 2), (''best_of'', PAtom 5)] =
     Inr [(''n_threads'', PAtom 2), (''greedy'', PDict [(''best_of'', PAtom 5)])]"
    by (simp add: resolver_eval)
  show ?thesis
    using unrecognised_argument_inert [OF 1 2, of "[(''n_threads'', PAtom 2)]" "PAtom 7" "[(''best_of'', PAtom 5)]"] 1 2 3
    by simp
qed

section \<open>One iteration of the loop\<close>

lemmas iteration_defs = process_file_def finally_clause_def except_clauses_def try_block_def
  log_events_def

lemma is_Exception_not_interrupt: "is_Exception e \<Longrightarrow> e \<noteq> KeyboardInterrupt"
  by (cases e) auto




lemma process_file_unbound:
  assumes "transcribe m i file (n_processors args) = Raises e" and "segs st = None"
  shows "process_file m utils args i file st =
     (Raise UnboundLocalError,
      log_events ([Info_processing file, Transcribe file (n_processors args)] @
        (if e = KeyboardInterrupt then [Info_stopped]
         else if is_Exception e then [Error_processing file e] else [])) st)"
  using assms by (simp add: iteration_defs)

lemma run_loop_append:
  "run_loop m utils args i (xs @ ys) st =
     (case run_loop m utils args i xs st of
        (Normal, st') \<Rightarrow> run_loop m utils args (i + length xs) ys st'
      | (Break, st') \<Rightarrow> (Break, st')
      | (Raise e, st') \<Rightarrow> (Raise e, st'))"
  by (induction xs arbitrary: i st) (auto split: prod.splits signal.splits)

lemma filter_transcribe_dispatch [simp]:
  "filter is_transcribe (dispatch utils args s file) = []"
proof -
  have "filter is_transcribe (map (\<lambda>(i, seg). Info_segment i seg) xs) = []" for xs :: "(nat \<times> 'a) list"
    by (induction xs) auto
  then show ?thesis
    by (simp add: dispatch_def save_as_def)
qed

lemma process_file_trace:
  "\<exists>es. trace (snd (process_file m utils args i file st)) = trace st @ es \<and>
        length (filter is_transcribe es) = 1"
proof (cases "transcribe m i file (n_processors args)")
  case (Returns s)
  then show ?thesis
    by (cases "print_timings m i")
      (auto simp: iteration_defs Let_def split: option.splits)
next
  case (Raises e)
  then show ?thesis
    by (auto simp: iteration_defs Let_def split: option.splits)
qed

lemma run_loop_trace:
  "\<exists>es. trace (snd (run_loop m utils args i files st)) = trace st @ es \<and>
        length (filter is_transcribe es) \<le> length files"
proof (induction files arbitrary: i st)
  case Nil
  then show ?case by simp
next
  case (Cons f files)
  obtain sig st' where p: "process_file m utils args i f st = (sig, st')"
    by (cases "process_file m utils args i f st")
  obtain es where es: "trace st' = trace st @ es" "length (filter is_transcribe es) = 1"
    using process_file_trace [of m utils args i f st] by (auto simp: p)
  show ?case
  proof (cases sig)
    case Normal
    obtain es' where es': "trace (snd (run_loop m utils args (Suc i) files st')) = trace st' @ es'"
      "length (filter is_transcribe es') \<le> length files"
      using Cons.IH [of "Suc i" st'] by blast
    have "trace (snd (run_loop m utils args i (f # files) st)) = trace st @ (es @ es')"
      by (simp add: p Normal es' es)
    moreover have "length (filter is_transcribe (es @ es')) \<le> length (f # files)"
      using es es' by simp
    ultimately show ?thesis by blast
  next
    case Break
    then show ?thesis using es by (auto simp: p)
  next
    case (Raise e)
    then show ?thesis using es by (auto simp: p)
  qed
qed

lemma process_file_interrupted:
  "interrupted_at m args i file \<Longrightarrow> fst (process_file m utils args i file st) \<noteq> Normal"
  by (auto simp: interrupted_at_def iteration_defs Let_def split: outcome.splits option.splits)

lemma run_loop_interrupted:
  assumes "interrupted_at m args i file"
  shows "run_loop m utils args i (file # post) st = process_file m utils args i file st"
proof -
  obtain sig st' where p: "process_file m utils args i file st = (sig, st')"
    by (cases "process_file m utils args i file st")
  with process_file_interrupted [OF assms, of utils st] have "sig \<noteq> Normal"
    by simp
  then show ?thesis
    by (cases sig) (simp_all add: p)
qed

lemma filter_segment_line_save_as [simp]: "filter is_segment_line (save_as utils f s file) = []"
  by (simp add: save_as_def)

lemma filter_output_save_as [simp]: "filter is_output (save_as utils f s file) = [Output f s file]"
  by (simp add: save_as_def)

lemma filter_segment_lines [simp]:
  "filter is_segment_line (map (\<lambda>(i, seg). Info_segment i seg) xs) =
     map (\<lambda>(i, seg). Info_segment i seg) xs"
  by (induction xs) auto

lemma filter_output_segment_lines [simp]:
  "filter is_output (map (\<lambda>(i, seg). Info_segment i seg) xs) = []"
  by (induction xs) auto

lemma segment_line_in_filter:
  "Info_segment i seg \<in> set es \<longleftrightarrow> Info_segment i seg \<in> set (filter is_segment_line es)"
  by simp

lemmas example_defs = scripted_model_def example_utils_def example_args_def example_args_csv_def
  n_processors_def dispatch_def save_as_def failing_second_def interrupted_second_def
  failing_first_def timings_fail_second_def timings_interrupted_second_def

section \<open>BatchRunner: the claims\<close>






text \<open>
  C4.  Interrupt abort.  If a \<^verbatim>\<open>KeyboardInterrupt\<close> is raised while file \<open>k\<close> of a batch
  is processed, then the files after \<open>k\<close> play no part in the run (the run equals the run
  of the batch cut off after file \<open>k\<close>), the loop does not complete its list,
  \<^verbatim>\<open>transcribe\<close> is called at most once for each file up to \<open>k\<close> and never for a later
  file, and everything logged and written before file \<open>k\<close> stays at the head of the trace.
\<close>

theorem interrupt_aborts_batch:
  assumes "interrupted_at m args (i + length pre) file"
  shows "run_loop m utils args i (pre @ file # post) st =
           run_loop m utils args i (pre @ [file]) st \<and>
         fst (run_loop m utils args i (pre @ file # post) st) \<noteq> Normal \<and>
         length (filter is_transcribe (trace (snd (run_loop m utils args i (pre @ file # post) st))))
           \<le> length (filter is_transcribe (trace st)) + length pre + 1 \<and>
         (\<forall>st'. run_loop m utils args i pre st = (Normal, st') \<longrightarrow>
            prefix (trace st') (trace (snd (run_loop m utils args i (pre @ file # post) st))))"
proof -
  let ?k = "i + length pre"
  have tail: "run_loop m utils args ?k (file # post) st' = process_file m utils args ?k file st'"
    for st' post
    using assms by (rule run_loop_interrupted)
  have same: "run_loop m utils args i (pre @ file # post) st =
      run_loop m utils args i (pre @ [file]) st"
    by (simp only: run_loop_append tail)
  have stops: "fst (run_loop m utils args i (pre @ file # post) st) \<noteq> Normal"
    using process_file_interrupted [OF assms, of utils]
    by (simp only: run_loop_append tail) (auto split: prod.splits signal.splits)
  obtain es where es: "trace (snd (run_loop m utils args i (pre @ [file]) st)) = trace st @ es"
    "length (filter is_transcribe es) \<le> length (pre @ [file])"
    using run_loop_trace [of m utils args i "pre @ [file]" st] by blast
  have calls: "length (filter is_transcribe
        (trace (snd (run_loop m utils args i (pre @ file # post) st))))
      \<le> length (filter is_transcribe (trace st)) + length pre + 1"
    using es by (simp add: same)
  have kept: "prefix (trace st') (trace (snd (run_loop m utils args i (pre @ file # post) st)))"
    if "run_loop m utils args i pre st = (Normal, st')" for st'
  proof -
    have "run_loop m utils args i (pre @ file # post) st = process_file m utils args ?k file st'"
      by (simp only: run_loop_append tail that prod.case signal.case)
    then show ?thesis
      using process_file_trace [of m utils args ?k "file" st'] by (auto simp: prefix_def)
  qed
  from same stops calls kept show ?thesis by blast
qed

theorem interrupt_aborts_batch_witness:
  "interrupted_at interrupted_second example_args (0 + length [''a.wav'']) ''b.wav'' \<and>
   run_loop interrupted_second example_utils example_args 0
     ([''a.wav''] @ ''b.wav'' # [''c.wav'']) initial_state =
     (Break,
      \<lparr>segs = Some [1, 2],
       trace =
         [Info_processing ''a.wav'', Transcribe ''a.wav'' (Some 1), Print_timings,
          Info_saving Txt, Output Txt [1, 2] ''a.wav'', Info_saved Txt ''a.wav.txt'',
          Info_segment 0 1, Info_segment 1 2,
          Info_processing ''b.wav'', Transcribe ''b.wav'' (Some 1), Info_stopped,
          Info_saving Txt, Output Txt [1, 2] ''b.wav'', Info_saved Txt ''b.wav.txt'',
          Info_segment 0 1, Info_segment 1 2]\<rparr>)"
proof -
  have h: "interrupted_at interrupted_second example_args (0 + length [''a.wav'']) ''b.wav''"
    by (simp add: interrupted_at_def example_defs)
  have short: "run_loop interrupted_second example_utils example_args 0
     ([''a.wav''] @ [''b.wav'']) initial_state =
     (Break,
      \<lparr>segs = Some [1, 2],
       trace =
         [Info_processing ''a.wav'', Transcribe ''a.wav'' (Some 1), Print_timings,
          Info_saving Txt, Output Txt [1, 2] ''a.wav'', Info_saved Txt ''a.wav.txt'',
          Info_segment 0 1, Info_segment 1 2,
          Info_processing ''b.wav'', Transcribe ''b.wav'' (Some 1), Info_stopped,
          Info_saving Txt, Output Txt [1, 2] ''b.wav'', Info_saved Txt ''b.wav.txt'',
          Info_segment 0 1, Info_segment 1 2]\<rparr>)"
    by (simp add: iteration_defs example_defs initial_state_def)
  from interrupt_aborts_batch [OF h, of example_utils "[''c.wav'']" initial_state]
  have "run_loop interrupted_second example_utils example_args 0
     ([''a.wav''] @ ''b.wav'' # [''c.wav'']) initial_state =
     run_loop interrupted_second example_utils example_args 0
     ([''a.wav''] @ [''b.wav'']) initial_state"
    by (rule conjunct1)
  with h short show ?thesis
    by (simp only: simp_thms)
qed

text \<open>
  C5.  When the output step runs for a file: if csv output is requested no line
  \<^verbatim>\<open>Segment i: ...\<close> is logged, and if it is not requested one such line is logged for
  each segment, in order.  Each of the four writers is called exactly when its own flag
  is set, in the order txt, vtt, srt, csv, whatever the other flags are.
\<close>

theorem csv_suppresses_console:
  "(output_csv args \<longrightarrow> (\<forall>i seg. Info_segment i seg \<notin> set (dispatch utils args s file))) \<and>
   (\<not> output_csv args \<longrightarrow>
      filter is_segment_line (dispatch utils args s file) =
        map (\<lambda>(i, seg). Info_segment i seg) (enumerate 0 s)) \<and>
   filter is_output (dispatch utils args s file) =
     (if output_txt args then [Output Txt s file] else []) @
     (if output_vtt args then [Output Vtt s file] else []) @
     (if output_srt args then [Output Srt s file] else []) @
     (if output_csv args then [Output Csv s file] else [])"
proof (intro conjI impI allI)
  fix i seg
  assume "output_csv args"
  then have "filter is_segment_line (dispatch utils args s file) = []"
    by (simp add: dispatch_def)
  then show "Info_segment i seg \<notin> set (dispatch utils args s file)"
    by (metis segment_line_in_filter empty_iff empty_set)
next
  assume "\<not> output_csv args"
  then show "filter is_segment_line (dispatch utils args s file) =
        map (\<lambda>(i, seg). Info_segment i seg) (enumerate 0 s)"
    by (simp add: dispatch_def)
next
  show "filter is_output (dispatch utils args s file) =
     (if output_txt args then [Output Txt s file] else []) @
     (if output_vtt args then [Output Vtt s file] else []) @
     (if output_srt args then [Output Srt s file] else []) @
     (if output_csv args then [Output Csv s file] else [])"
    by (simp add: dispatch_def)
qed

theorem csv_suppresses_console_witness:
  "output_csv example_args_csv \<and>
   Info_segment 0 1 \<notin> set (dispatch example_utils example_args_csv [1, 2] ''a.wav'') \<and>
   Info_segment 1 2 \<notin> set (dispatch example_utils example_args_csv [1, 2] ''a.wav'') \<and>
   filter is_output (dispatch example_utils example_args_csv [1, 2] ''a.wav'') =
     [Output Txt [1, 2] ''a.wav'', Output Csv [1, 2] ''a.wav''] \<and>
   \<not> output_csv example_args \<and>
   filter is_segment_line (dispatch example_utils example_args [1, 2] ''a.wav'') =
     [Info_segment 0 1, Info_segment 1 2] \<and>
   filter is_output (dispatch example_utils example_args [1, 2] ''a.wav'') =
     [Output Txt [1, 2] ''a.wav'']"
proof -
  have csv: "output_csv example_args_csv" and plain: "\<not> output_csv example_args"
    by (simp_all add: example_defs)
  have flags: "output_txt example_args_csv" "\<not> output_vtt example_args_csv"
    "\<not> output_srt example_args_csv" "output_txt example_args" "\<not> output_vtt example_args"
    "\<not> output_srt example_args"
    by (simp_all add: example_defs)
  show ?thesis
    using csv_suppresses_console [of example_args_csv example_utils "[1, 2]" "''a.wav''"]
      csv_suppresses_console [of example_args example_utils "[1, 2]" "''a.wav''"]
      csv plain flags
    by simp
qed

text \<open>
  C9.  The failure of the first file is not isolated.  If \<^verbatim>\<open>transcribe\<close> raises an
  \<^verbatim>\<open>Exception\<close> for the first file of the batch, the error is logged, the \<^verbatim>\<open>finally\<close>
  clause reads the local \<^verbatim>\<open>segs\<close> that was never assigned, and the
  \<^verbatim>\<open>UnboundLocalError\<close> of that read leaves the loop: no other file is processed.
\<close>

theorem first_file_failure_aborts:
  assumes "media_file args = file # rest"
    and "transcribe m 0 file (n_processors args) = Raises e"
    and "is_Exception e"
  shows "run m utils args =
     (Raise UnboundLocalError,
      \<lparr>segs = None,
       trace = [Info_processing file, Transcribe file (n_processors args),
                Error_processing file e]\<rparr>)"
proof -
  have "segs (initial_state :: 'a state) = None"
    by (simp add: initial_state_def)
  with assms(2) have "process_file m utils args 0 file initial_state =
     (Raise UnboundLocalError,
      log_events ([Info_processing file, Transcribe file (n_processors args)] @
        (if e = KeyboardInterrupt then [Info_stopped]
         else if is_Exception e then [Error_processing file e] else [])) initial_state)"
    by (rule process_file_unbound)
  then show ?thesis
    using assms(3) is_Exception_not_interrupt [OF assms(3)]
    by (simp add: run_def assms(1) log_events_def initial_state_def)
qed

theorem first_file_failure_aborts_witness:
  "run failing_first example_utils example_args =
     (Raise UnboundLocalError,
      \<lparr>segs = None,
       trace = [Info_processing ''a.wav'', Transcribe ''a.wav'' (Some 1),
                Error_processing ''a.wav'' (Exception ''boom'')]\<rparr>)"
proof -
  have "media_file example_args = ''a.wav'' # [''b.wav'', ''c.wav'']"
    and "transcribe failing_first 0 ''a.wav'' (n_processors example_args) =
           Raises (Exception ''boom'')"
    and "is_Exception (Exception ''boom'')"
    by (simp_all add: example_defs)
  from first_file_failure_aborts [OF this, of example_utils] show ?thesis
    by (simp add: example_defs)
qed




section \<open>The flags of the command line: the claim\<close>

lemma add_argument_Inr_iff:
  "add_argument parser flag = Inr parser' \<longleftrightarrow>
     parser' = parser @ [flag] \<and> has_dest flag \<and> flag \<notin> set parser"
  by (auto simp: add_argument_def has_dest_def)

lemma add_default_items_Inr_iff:
  "add_default_items parser pmap param items = Inr parser' \<longleftrightarrow>
     parser' = parser @ concat (map (item_flags pmap param) items) \<and>
     list_all has_dest (concat (map (item_flags pmap param) items)) \<and>
     distinct (concat (map (item_flags pmap param) items)) \<and>
     set (concat (map (item_flags pmap param) items)) \<inter> set parser = {}"
proof (induction items arbitrary: parser)
  case Nil
  then show ?case by auto
next
  case (Cons kv items)
  obtain k v where kv: "kv = (k, v)" by (cases kv)
  show ?case
  proof (cases "dict_get pmap (param @ ''.'' @ k)")
    case None
    then show ?thesis
      by (simp add: kv item_flags_def Cons.IH)
  next
    case (Some map_val)
    show ?thesis
    proof (cases "map_val = []")
      case True
      with Some show ?thesis
        by (simp add: kv item_flags_def Cons.IH)
    next
      case False
      show ?thesis
      proof (cases "add_argument parser (flag_of map_val)")
        case (Inl e)
        then have "\<not> (has_dest (flag_of map_val) \<and> flag_of map_val \<notin> set parser)"
          using add_argument_Inr_iff [of parser "flag_of map_val"] by auto
        with Some False Inl show ?thesis
          by (auto simp: kv item_flags_def)
      next
        case (Inr p1)
        then have p1: "p1 = parser @ [flag_of map_val]" "has_dest (flag_of map_val)"
          "flag_of map_val \<notin> set parser"
          by (simp_all add: add_argument_Inr_iff)
        from Some False Inr show ?thesis
          by (auto simp: kv item_flags_def Cons.IH p1)
      qed
    qed
  qed
qed

lemma add_param_Inr_iff:
  "add_param parser pmap pf = Inr parser' \<longleftrightarrow>
     parser' = parser @ entry_flags pmap pf \<and> dict_default pf \<and>
     list_all has_dest (entry_flags pmap pf) \<and> distinct (entry_flags pmap pf) \<and>
     set (entry_flags pmap pf) \<inter> set parser = {}"
proof -
  obtain param pfields where pf: "pf = (param, pfields)" by (cases pf)
  show ?thesis
  proof (cases "ptype pfields = Tdict")
    case True
    then show ?thesis
      by (cases "pdefault pfields")
        (simp_all add: pf add_param_def entry_flags_def add_default_items_Inr_iff)
  next
    case False
    then show ?thesis
      by (auto simp: pf add_param_def entry_flags_def add_argument_Inr_iff split: option.splits)
  qed
qed

lemmas flags_eval = schema_flags_def entry_flags_def item_flags_def flag_of_def
  replace_underscores_def has_dest_def dict_get_def example_schema_def example_mapping_def
  main_parser_def

text \<open>
  C8 as stated fails.  For a parameter of type \<^verbatim>\<open>dict\<close> the flag of a key of the default
  is registered under \<^verbatim>\<open>if map_val:\<close> only.  A key whose path the mapping does not have
  gets no flag at all: here the parser is left as it was.
\<close>

theorem cli_flags_counterexample:
  "add_schema_params main_parser
     [(''greedy'',
        \<lparr>ptype = Tdict, description = ''Greedy'',
         pdefault = PDict [(''best_of'', PAtom (1::int))]\<rparr>)] [] = Inr main_parser"
  by (simp add: add_param_def dict_get_def)

text \<open>
  C8 (amended).  The loop over the schema registers, in the order of the schema, exactly
  the flags \<open>schema_flags\<close>: for each schema entry that is not of type \<^verbatim>\<open>dict\<close> one flag,
  named by replacing underscores with hyphens in the shown name when the mapping has the
  canonical name and in the canonical name otherwise; for each entry of type \<^verbatim>\<open>dict\<close> one
  flag for each key of its default whose path \<^verbatim>\<open>param.key\<close> has a shown name that is not
  empty, and none for the other keys.  The registration returns exactly when the defaults
  of the \<^verbatim>\<open>dict\<close> entries are dictionaries and these flags have a destination, differ
  from one another and from the flags registered before; otherwise it raises.
\<close>

theorem cli_flags_derivation:
  "add_schema_params parser schema pmap = Inr parser' \<longleftrightarrow>
     parser' = parser @ schema_flags schema pmap \<and>
     list_all dict_default schema \<and>
     list_all has_dest (schema_flags schema pmap) \<and>
     distinct (schema_flags schema pmap) \<and>
     set (schema_flags schema pmap) \<inter> set parser = {}"
proof (induction schema arbitrary: parser)
  case Nil
  then show ?case by (auto simp: schema_flags_def)
next
  case (Cons pf schema)
  show ?case
  proof (cases "add_param parser pmap pf")
    case (Inl e)
    then have "\<not> (dict_default pf \<and> list_all has_dest (entry_flags pmap pf) \<and>
        distinct (entry_flags pmap pf) \<and> set (entry_flags pmap pf) \<inter> set parser = {})"
      using add_param_Inr_iff [of parser pmap pf] by auto
    with Inl show ?thesis
      by (auto simp: schema_flags_def)
  next
    case (Inr p1)
    then have p1: "p1 = parser @ entry_flags pmap pf" "dict_default pf"
      "list_all has_dest (entry_flags pmap pf)" "distinct (entry_flags pmap pf)"
      "set (entry_flags pmap pf) \<inter> set parser = {}"
      by (simp_all add: add_param_Inr_iff)
    have "add_schema_params parser (pf # schema) pmap = add_schema_params p1 schema pmap"
      by (simp add: Inr)
    also have "\<dots> = Inr parser' \<longleftrightarrow>
       parser' = p1 @ schema_flags schema pmap \<and>
       list_all dict_default schema \<and>
       list_all has_dest (schema_flags schema pmap) \<and>
       distinct (schema_flags schema pmap) \<and>
       set (schema_flags schema pmap) \<inter> set p1 = {}"
      by (rule Cons.IH)
    finally show ?thesis
      using p1 by (auto simp: schema_flags_def)
  qed
qed

theorem cli_flags_derivation_witness:
  "add_schema_params main_parser example_schema example_mapping =
     Inr (main_parser @ [''--n-threads'', ''--lang'', ''--best-of'', ''--beam-size''])"
proof -
  have flags: "schema_flags example_schema example_mapping =
      [''--n-threads'', ''--lang'', ''--best-of'', ''--beam-size'']"
    by (simp add: flags_eval)
  have "list_all dict_default example_schema"
    by (simp add: example_schema_def)
  moreover have "list_all has_dest [''--n-threads'', ''--lang'', ''--best-of'', ''--beam-size'']"
    by (simp add: has_dest_def)
  moreover have "distinct [''--n-threads'', ''--lang'', ''--best-of'', ''--beam-size'']"
    by simp
  moreover have "set [''--n-threads'', ''--lang'', ''--best-of'', ''--beam-size''] \<inter>
      set main_parser = {}"
    by (simp add: main_parser_def)
  ultimately show ?thesis
    using cli_flags_derivation [of main_parser example_schema example_mapping
        "main_parser @ [''--n-threads'', ''--lang'', ''--best-of'', ''--beam-size'']"]
    by (simp only: flags simp_thms)
qed

end
